theory Spec2Isabelle
  imports Main
begin

section \<open>The DFA tokenizer of tokpar.py\<close>

subsection \<open>Strings and the character database\<close>

text \<open>
  A Python \<open>str\<close> is a sequence of Unicode code points; iterating over it yields one
  code point at a time. Code points are modelled as natural numbers.
\<close>

type_synonym codepoint = nat
type_synonym pystr = "codepoint list"

text \<open>
  The tokenizer calls four built-in string methods of the Python runtime:
  \<open>ch.isspace()\<close>, \<open>ch.isalpha()\<close>, \<open>ch.isdigit()\<close> on a one-character string and
  \<open>s.lower()\<close> on a whole string (Python lower-cases a string as a whole: the result
  of a capital sigma depends on its position, and some characters lower-case to two
  code points). They belong to the runtime, not to the program, so the model takes
  them as a parameter.
\<close>

record chardb =
  isspace :: "codepoint \<Rightarrow> bool"
  isalpha :: "codepoint \<Rightarrow> bool"
  isdigit :: "codepoint \<Rightarrow> bool"
  lower :: "pystr \<Rightarrow> pystr"

text \<open>Python's classification of the code points below 128.\<close>

definition ascii_isspace :: "codepoint \<Rightarrow> bool" where
  "ascii_isspace c = ((9 \<le> c \<and> c \<le> 13) \<or> (28 \<le> c \<and> c \<le> 32))"

definition ascii_isalpha :: "codepoint \<Rightarrow> bool" where
  "ascii_isalpha c = ((65 \<le> c \<and> c \<le> 90) \<or> (97 \<le> c \<and> c \<le> 122))"

definition ascii_isdigit :: "codepoint \<Rightarrow> bool" where
  "ascii_isdigit c = (48 \<le> c \<and> c \<le> 57)"

definition ascii_lower :: "codepoint \<Rightarrow> codepoint" where
  "ascii_lower c = (if 65 \<le> c \<and> c \<le> 90 then c + 32 else c)"

definition ascii_db :: chardb where
  "ascii_db = \<lparr>isspace = ascii_isspace, isalpha = ascii_isalpha,
               isdigit = ascii_isdigit, lower = map ascii_lower\<rparr>"

text \<open>
  A character database agrees with Python on ASCII when its three predicates
  coincide with the ones above on every code point below 128 and its \<open>lower\<close>
  lower-cases a string of such code points character by character.
\<close>

definition ascii_compatible :: "chardb \<Rightarrow> bool" where
  "ascii_compatible u =
     ((\<forall>c. c < 128 \<longrightarrow> isspace u c = ascii_isspace c) \<and>
      (\<forall>c. c < 128 \<longrightarrow> isalpha u c = ascii_isalpha c) \<and>
      (\<forall>c. c < 128 \<longrightarrow> isdigit u c = ascii_isdigit c) \<and>
      (\<forall>s. (\<forall>c \<in> set s. c < 128) \<longrightarrow> lower u s = map ascii_lower s))"

text \<open>A string literal as the list of its code points.\<close>

definition str :: "string \<Rightarrow> pystr" where
  "str s = map of_char s"

subsection \<open>Tokens and the tokenizer instance\<close>

text \<open>
  \<open>Tok\<close> is a dataclass with two string fields; the token type is one of the
  Python strings \<open>"WORD"\<close>, \<open>"NUMBER"\<close>, \<open>"SYMBOL"\<close>. The field \<open>value\<close> of the
  source is named \<open>val\<close> here.
\<close>

record Tok =
  type :: string
  val :: pystr

text \<open>
  The fields of a \<open>DFATokenizer\<close> instance. The automaton state is a Python string
  as well (\<open>"START"\<close>, \<open>"WORD"\<close>, \<open>"NUMBER"\<close>).
\<close>

record DFATokenizer =
  state :: string
  current :: pystr
  tokens :: "Tok list"

definition init :: DFATokenizer where
  "init = \<lparr>state = ''START'', current = [], tokens = []\<rparr>"

definition reset :: "DFATokenizer \<Rightarrow> DFATokenizer" where
  "reset self = self\<lparr>state := ''START'', current := [], tokens := []\<rparr>"

definition emit :: "string \<Rightarrow> DFATokenizer \<Rightarrow> DFATokenizer" where
  "emit ty self =
     (if current self \<noteq> []
      then self\<lparr>tokens := tokens self @ [\<lparr>type = ty, val = current self\<rparr>],
                current := []\<rparr>
      else self)"

text \<open>
  The body of the \<open>for ch in text\<close> loop. Nothing follows the \<open>if\<close> chain in the
  loop body, so \<open>continue\<close> leaves the instance as it is at that point.
\<close>

definition step :: "chardb \<Rightarrow> DFATokenizer \<Rightarrow> codepoint \<Rightarrow> DFATokenizer" where
  "step u self ch =
     (if state self = ''START'' then
        (if isspace u ch then self
         else if isalpha u ch then
           self\<lparr>state := ''WORD'', current := current self @ [ch]\<rparr>
         else if isdigit u ch then
           self\<lparr>state := ''NUMBER'', current := current self @ [ch]\<rparr>
         else self\<lparr>tokens := tokens self @ [\<lparr>type = ''SYMBOL'', val = [ch]\<rparr>]\<rparr>)
      else if state self = ''WORD'' then
        (if isalpha u ch \<or> ch = 39 then self\<lparr>current := current self @ [ch]\<rparr>
         else
           (let self1 = (emit ''WORD'' self)\<lparr>state := ''START''\<rparr> in
            if isspace u ch then self1
            else if isdigit u ch then
              self1\<lparr>state := ''NUMBER'', current := current self1 @ [ch]\<rparr>
            else self1\<lparr>tokens := tokens self1 @ [\<lparr>type = ''SYMBOL'', val = [ch]\<rparr>]\<rparr>))
      else if state self = ''NUMBER'' then
        (if isdigit u ch then self\<lparr>current := current self @ [ch]\<rparr>
         else
           (let self1 = (emit ''NUMBER'' self)\<lparr>state := ''START''\<rparr> in
            if isspace u ch then self1
            else if isalpha u ch then
              self1\<lparr>state := ''WORD'', current := current self1 @ [ch]\<rparr>
            else self1\<lparr>tokens := tokens self1 @ [\<lparr>type = ''SYMBOL'', val = [ch]\<rparr>]\<rparr>))
      else self)"

text \<open>The \<open>for\<close> loop over the characters of the text.\<close>

fun scan :: "chardb \<Rightarrow> DFATokenizer \<Rightarrow> pystr \<Rightarrow> DFATokenizer" where
  "scan u self [] = self"
| "scan u self (ch # text) = scan u (step u self ch) text"

text \<open>The flush after the loop.\<close>

definition flush :: "DFATokenizer \<Rightarrow> DFATokenizer" where
  "flush self =
     (if state self = ''WORD'' then emit ''WORD'' self
      else if state self = ''NUMBER'' then emit ''NUMBER'' self
      else self)"

text \<open>The final loop that builds \<open>norm\<close> from \<open>self.tokens\<close>.\<close>

fun norm_loop :: "chardb \<Rightarrow> Tok list \<Rightarrow> Tok list \<Rightarrow> Tok list" where
  "norm_loop u norm [] = norm"
| "norm_loop u norm (t # ts) =
     norm_loop u
       (norm @ [if type t = ''WORD'' then \<lparr>type = ''WORD'', val = lower u (val t)\<rparr> else t])
       ts"

text \<open>
  \<open>tokenize\<close> works on the instance it is called on: it returns the list \<open>norm\<close>
  together with the instance as the call leaves it.
\<close>

definition tokenize :: "chardb \<Rightarrow> DFATokenizer \<Rightarrow> pystr \<Rightarrow> Tok list \<times> DFATokenizer" where
  "tokenize u self text =
     (let self1 = reset self;
          self2 = scan u self1 text;
          self3 = flush self2
      in (norm_loop u [] (tokens self3), self3))"

subsection \<open>Well-formed tokens and the automaton invariant\<close>

text \<open>
  A token is well formed when it is a \<open>WORD\<close> or \<open>NUMBER\<close> with a non-empty text or
  a \<open>SYMBOL\<close> of exactly one character. The instance is consistent when the buffer
  is empty in \<open>START\<close>, non-empty in \<open>WORD\<close> and \<open>NUMBER\<close>, and every token emitted
  so far is well formed.
\<close>

definition tok_ok :: "Tok \<Rightarrow> bool" where
  "tok_ok t =
     (((type t = ''WORD'' \<or> type t = ''NUMBER'') \<and> val t \<noteq> []) \<or>
      (type t = ''SYMBOL'' \<and> length (val t) = 1))"

definition tinv :: "DFATokenizer \<Rightarrow> bool" where
  "tinv self =
     (((state self = ''START'' \<and> current self = []) \<or>
       ((state self = ''WORD'' \<or> state self = ''NUMBER'') \<and> current self \<noteq> [])) \<and>
      list_all tok_ok (tokens self))"

subsection \<open>The post-processing pass, as the specification words it\<close>

text \<open>
  Every \<open>WORD\<close> token's text is replaced by its lower-cased form; every other token
  is left as it is.
\<close>

definition lowercase_words :: "chardb \<Rightarrow> Tok list \<Rightarrow> Tok list" where
  "lowercase_words u ts =
     map (\<lambda>t. if type t = ''WORD'' then t\<lparr>val := lower u (val t)\<rparr> else t) ts"

subsection \<open>The re-dispatch of a character, as the specification words it\<close>

text \<open>
  The \<open>START\<close> row of the specification's table: whitespace is ignored, an alphabetic
  character becomes the buffer and the state \<open>WORD\<close>, a digit becomes the buffer and the
  state \<open>NUMBER\<close>, any other character is emitted at once as a \<open>SYMBOL\<close>.
\<close>

definition start_dispatch :: "chardb \<Rightarrow> DFATokenizer \<Rightarrow> codepoint \<Rightarrow> DFATokenizer" where
  "start_dispatch u self ch =
     (if isspace u ch then self
      else if isalpha u ch then self\<lparr>state := ''WORD'', current := [ch]\<rparr>
      else if isdigit u ch then self\<lparr>state := ''NUMBER'', current := [ch]\<rparr>
      else self\<lparr>tokens := tokens self @ [\<lparr>type = ''SYMBOL'', val = [ch]\<rparr>]\<rparr>)"

text \<open>
  Leaving a run: the buffer is emitted as a token of the run's kind, the buffer is
  cleared and the state is \<open>START\<close>.
\<close>

definition exit_run :: "DFATokenizer \<Rightarrow> DFATokenizer" where
  "exit_run self =
     self\<lparr>tokens := tokens self @ [\<lparr>type = state self, val = current self\<rparr>],
          current := [], state := ''START''\<rparr>"

subsection \<open>Auxiliary notions for the proofs\<close>

text \<open>
  A string of code points below 128, an instance whose buffer and token texts are
  such strings, and the characters an instance holds: the texts of its tokens in
  order, followed by the buffer.
\<close>

definition ascii_str :: "pystr \<Rightarrow> bool" where
  "ascii_str s = list_all (\<lambda>c. c < 128) s"

definition ascii_only :: "DFATokenizer \<Rightarrow> bool" where
  "ascii_only self =
     (ascii_str (current self) \<and> list_all (\<lambda>t. ascii_str (val t)) (tokens self))"

definition content :: "DFATokenizer \<Rightarrow> pystr" where
  "content self = concat (map val (tokens self)) @ current self"

text \<open>The number of tokens emitted so far, counting a non-empty buffer as one more.\<close>

definition pending :: "DFATokenizer \<Rightarrow> nat" where
  "pending self = length (tokens self) + (if current self = [] then 0 else 1)"

section \<open>Basic facts about the automaton\<close>

lemma reset_init: "reset self = init"
  by (simp add: reset_def init_def)

lemma tinv_init: "tinv init"
  by (simp add: tinv_def init_def)

lemma state_emit: "state (emit ty self) = state self"
  and current_emit: "current (emit ty self) = []"
  and tokens_emit: "tokens (emit ty self) =
        (if current self \<noteq> [] then tokens self @ [\<lparr>type = ty, val = current self\<rparr>]
         else tokens self)"
  by (simp_all add: emit_def)

lemma step_START:
  "state self = ''START'' \<Longrightarrow>
   step u self ch =
     (if isspace u ch then self
      else if isalpha u ch then self\<lparr>state := ''WORD'', current := current self @ [ch]\<rparr>
      else if isdigit u ch then self\<lparr>state := ''NUMBER'', current := current self @ [ch]\<rparr>
      else self\<lparr>tokens := tokens self @ [\<lparr>type = ''SYMBOL'', val = [ch]\<rparr>]\<rparr>)"
  by (simp add: step_def)

lemma step_WORD:
  "state self = ''WORD'' \<Longrightarrow>
   step u self ch =
     (if isalpha u ch \<or> ch = 39 then self\<lparr>current := current self @ [ch]\<rparr>
      else
        (let self1 = (emit ''WORD'' self)\<lparr>state := ''START''\<rparr> in
         if isspace u ch then self1
         else if isdigit u ch then
           self1\<lparr>state := ''NUMBER'', current := current self1 @ [ch]\<rparr>
         else self1\<lparr>tokens := tokens self1 @ [\<lparr>type = ''SYMBOL'', val = [ch]\<rparr>]\<rparr>))"
  by (simp add: step_def)

lemma step_NUMBER:
  "state self = ''NUMBER'' \<Longrightarrow>
   step u self ch =
     (if isdigit u ch then self\<lparr>current := current self @ [ch]\<rparr>
      else
        (let self1 = (emit ''NUMBER'' self)\<lparr>state := ''START''\<rparr> in
         if isspace u ch then self1
         else if isalpha u ch then
           self1\<lparr>state := ''WORD'', current := current self1 @ [ch]\<rparr>
         else self1\<lparr>tokens := tokens self1 @ [\<lparr>type = ''SYMBOL'', val = [ch]\<rparr>]\<rparr>))"
  by (simp add: step_def)

lemma tinv_cases:
  assumes "tinv self"
  obtains (START) "state self = ''START''" "current self = []"
    | (WORD) "state self = ''WORD''" "current self \<noteq> []"
    | (NUMBER) "state self = ''NUMBER''" "current self \<noteq> []"
  using assms unfolding tinv_def by blast

lemma tinv_step:
  assumes "tinv self" shows "tinv (step u self ch)"
  using assms
proof (cases rule: tinv_cases)
  case START
  with assms show ?thesis
    by (simp add: step_START tinv_def tok_ok_def)
next
  case WORD
  with assms show ?thesis
    by (simp add: step_WORD tinv_def tok_ok_def Let_def state_emit current_emit tokens_emit)
next
  case NUMBER
  with assms show ?thesis
    by (simp add: step_NUMBER tinv_def tok_ok_def Let_def state_emit current_emit tokens_emit)
qed

lemma tinv_scan: "tinv self \<Longrightarrow> tinv (scan u self s)"
  by (induction s arbitrary: self) (simp_all add: tinv_step)

lemma norm_loop_acc: "norm_loop u norm ts = norm @ lowercase_words u ts"
proof (induction ts arbitrary: norm)
  case Nil
  show ?case by (simp add: lowercase_words_def)
next
  case (Cons t ts)
  have "\<lparr>type = ''WORD'', val = lower u (val t)\<rparr> = t\<lparr>val := lower u (val t)\<rparr>"
    if "type t = ''WORD''"
    using that by (cases t) simp
  with Cons show ?case by (simp add: lowercase_words_def)
qed

lemma tokenize_fst:
  "fst (tokenize u self s) = lowercase_words u (tokens (flush (scan u init s)))"
  by (simp add: tokenize_def Let_def reset_init norm_loop_acc)

lemma tokenize_snd: "snd (tokenize u self s) = flush (scan u init s)"
  by (simp add: tokenize_def Let_def reset_init)

lemma scan_append: "scan u self (s @ s') = scan u (scan u self s) s'"
  by (induction s arbitrary: self) simp_all

lemma scan_whitespace:
  "state self = ''START'' \<Longrightarrow> \<forall>c \<in> set s. isspace u c \<Longrightarrow> scan u self s = self"
  by (induction s) (simp_all add: step_START)

lemma flush_START: "state self = ''START'' \<Longrightarrow> flush self = self"
  by (simp add: flush_def)

lemma tinv_tokens: "tinv self \<Longrightarrow> list_all tok_ok (tokens self)"
  by (simp add: tinv_def)

lemma flush_cases:
  assumes "tinv self"
  shows "(state self = ''START'' \<longrightarrow> flush self = self) \<and>
         (state self = ''WORD'' \<longrightarrow>
            tokens (flush self) = tokens self @ [\<lparr>type = ''WORD'', val = current self\<rparr>]) \<and>
         (state self = ''NUMBER'' \<longrightarrow>
            tokens (flush self) = tokens self @ [\<lparr>type = ''NUMBER'', val = current self\<rparr>])"
  using assms
  by (cases rule: tinv_cases) (simp_all add: flush_def tokens_emit)

lemma tok_ok_flush:
  assumes "tinv self"
  shows "list_all tok_ok (tokens (flush self))"
  using assms flush_cases [OF assms] tinv_tokens [OF assms]
  by (cases rule: tinv_cases) (simp_all add: tok_ok_def)

lemma tinv_scan_init: "tinv (scan u init s)"
  by (simp add: tinv_scan tinv_init)

lemma exit_run_emit:
  "current self \<noteq> [] \<Longrightarrow> (emit (state self) self)\<lparr>state := ''START''\<rparr> = exit_run self"
  by (simp add: emit_def exit_run_def)

subsection \<open>On ASCII input only the ASCII part of the character database matters\<close>

lemma ac_space: "ascii_compatible u \<Longrightarrow> c < 128 \<Longrightarrow> isspace u c = isspace ascii_db c"
  and ac_alpha: "ascii_compatible u \<Longrightarrow> c < 128 \<Longrightarrow> isalpha u c = isalpha ascii_db c"
  and ac_digit: "ascii_compatible u \<Longrightarrow> c < 128 \<Longrightarrow> isdigit u c = isdigit ascii_db c"
  and ac_lower: "ascii_compatible u \<Longrightarrow> ascii_str s \<Longrightarrow> lower u s = lower ascii_db s"
  by (simp_all add: ascii_compatible_def ascii_db_def ascii_str_def list_all_iff)

lemma ascii_compatible_ascii_db: "ascii_compatible ascii_db"
  by (simp add: ascii_compatible_def ascii_db_def)

lemma step_ascii:
  assumes "ascii_compatible u" "ch < 128"
  shows "step u self ch = step ascii_db self ch"
  by (simp only: step_def ac_space [OF assms] ac_alpha [OF assms] ac_digit [OF assms])

lemma scan_ascii:
  "ascii_compatible u \<Longrightarrow> ascii_str s \<Longrightarrow> scan u self s = scan ascii_db self s"
  by (induction s arbitrary: self) (simp_all add: ascii_str_def step_ascii)

lemma ascii_only_emit: "ascii_only self \<Longrightarrow> ascii_only (emit ty self)"
  by (simp add: ascii_only_def emit_def ascii_str_def)

lemma ascii_only_step:
  assumes "ascii_only self" "ch < 128"
  shows "ascii_only (step u self ch)"
proof -
  have e: "ascii_only (emit ty self)" for ty
    using assms(1) by (rule ascii_only_emit)
  show ?thesis
    using assms e [of "''WORD''"] e [of "''NUMBER''"]
    by (simp add: step_def Let_def ascii_only_def ascii_str_def)
qed

lemma ascii_only_scan:
  "ascii_only self \<Longrightarrow> ascii_str s \<Longrightarrow> ascii_only (scan u self s)"
proof (induction s arbitrary: self)
  case Nil
  then show ?case by simp
next
  case (Cons c s)
  then show ?case by (simp add: ascii_only_step ascii_str_def)
qed

lemma ascii_only_flush: "ascii_only self \<Longrightarrow> ascii_only (flush self)"
  by (simp add: flush_def ascii_only_emit)

lemma lowercase_words_ascii:
  "ascii_compatible u \<Longrightarrow> list_all (\<lambda>t. ascii_str (val t)) ts \<Longrightarrow>
   lowercase_words u ts = lowercase_words ascii_db ts"
  by (induction ts) (simp_all add: lowercase_words_def ac_lower)

lemma tokenize_ascii:
  assumes "ascii_compatible u" "ascii_str s"
  shows "fst (tokenize u self s) = fst (tokenize ascii_db init s)"
proof -
  have "ascii_only init" by (simp add: ascii_only_def init_def ascii_str_def)
  then have "ascii_only (flush (scan ascii_db init s))"
    using assms(2) by (simp add: ascii_only_scan ascii_only_flush)
  then have "list_all (\<lambda>t. ascii_str (val t)) (tokens (flush (scan ascii_db init s)))"
    by (simp add: ascii_only_def)
  with assms show ?thesis
    by (simp add: tokenize_fst scan_ascii lowercase_words_ascii)
qed

subsection \<open>The characters held by the instance\<close>

lemma content_emit: "content (emit ty self) = content self"
  by (simp add: content_def emit_def)

lemma content_step:
  assumes inv: "tinv self"
    and sep: "\<And>c. isspace u c \<Longrightarrow> \<not> isalpha u c \<and> \<not> isdigit u c \<and> c \<noteq> 39"
  shows "content (step u self ch) = content self @ (if isspace u ch then [] else [ch])"
  using inv
proof (cases rule: tinv_cases)
  case START
  then show ?thesis by (simp add: step_START content_def)
next
  case WORD
  have e: "concat (map val (tokens (emit ''WORD'' self))) = content self"
    using WORD by (simp add: tokens_emit content_def)
  from WORD sep [of ch] e show ?thesis
    by (auto simp: step_WORD Let_def content_def current_emit)
next
  case NUMBER
  have e: "concat (map val (tokens (emit ''NUMBER'' self))) = content self"
    using NUMBER by (simp add: tokens_emit content_def)
  from NUMBER sep [of ch] e show ?thesis
    by (auto simp: step_NUMBER Let_def content_def current_emit)
qed

lemma content_scan:
  assumes sep: "\<And>c. isspace u c \<Longrightarrow> \<not> isalpha u c \<and> \<not> isdigit u c \<and> c \<noteq> 39"
  shows "tinv self \<Longrightarrow> content (scan u self s) = content self @ filter (\<lambda>c. \<not> isspace u c) s"
proof (induction s arbitrary: self)
  case Nil
  show ?case by simp
next
  case (Cons c s)
  from Cons.prems have "tinv (step u self c)" by (rule tinv_step)
  then have "content (scan u (step u self c) s) =
      content (step u self c) @ filter (\<lambda>c. \<not> isspace u c) s"
    by (rule Cons.IH)
  then show ?case
    by (simp add: content_step [OF Cons.prems sep])
qed

lemma content_flush:
  assumes "tinv self"
  shows "concat (map val (tokens (flush self))) = content self"
  using assms flush_cases [OF assms]
  by (cases rule: tinv_cases) (simp_all add: content_def)

subsection \<open>The number of tokens\<close>

lemma pending_step:
  assumes "tinv self"
  shows "pending (step u self ch) \<le> Suc (pending self)"
  using assms
proof (cases rule: tinv_cases)
  case START
  then show ?thesis by (simp add: step_START pending_def)
next
  case WORD
  then show ?thesis
    by (simp add: step_WORD Let_def pending_def current_emit tokens_emit)
next
  case NUMBER
  then show ?thesis
    by (simp add: step_NUMBER Let_def pending_def current_emit tokens_emit)
qed

lemma pending_scan: "tinv self \<Longrightarrow> pending (scan u self s) \<le> pending self + length s"
proof (induction s arbitrary: self)
  case Nil
  show ?case by simp
next
  case (Cons c s)
  from Cons.prems have "tinv (step u self c)" by (rule tinv_step)
  then have "pending (scan u (step u self c) s) \<le> pending (step u self c) + length s"
    by (rule Cons.IH)
  with pending_step [OF Cons.prems, of u c] show ?case by simp
qed

lemma length_flush:
  assumes "tinv self"
  shows "length (tokens (flush self)) = pending self"
  using assms flush_cases [OF assms]
  by (cases rule: tinv_cases) (simp_all add: pending_def)

section \<open>The properties of the specification\<close>

text \<open>
  C1. \<open>tokenize\<close> is total: the model is built from primitive recursion over the
  input and the token list, with no failing branch, as the source has no statement
  that can raise. On every input it returns a sequence of at most as many tokens as
  the input has characters. On the empty string, and on every string that consists
  of whitespace characters only, the returned sequence is empty.
\<close>

theorem tokenize_whitespace_empty:
  "length (fst (tokenize u self s)) \<le> length s \<and>
   fst (tokenize u self []) = [] \<and>
   ((\<forall>c \<in> set s. isspace u c) \<longrightarrow> fst (tokenize u self s) = [])"
proof -
  have st: "state init = ''START''" and tk: "tokens init = []"
    by (simp_all add: init_def)
  have "fst (tokenize u self s) = []" if "\<forall>c \<in> set s. isspace u c" for s
    using that st tk
    by (simp add: tokenize_fst scan_whitespace flush_START lowercase_words_def)
  moreover have "pending init = 0"
    by (simp add: pending_def init_def)
  then have "length (fst (tokenize u self s)) \<le> length s"
    using pending_scan [OF tinv_init, of u s]
    by (simp add: tokenize_fst lowercase_words_def length_flush [OF tinv_scan_init])
  ultimately show ?thesis by simp
qed

theorem tokenize_whitespace_empty_witness:
  "list_all (isspace ascii_db) [32, 9, 10] \<and> fst (tokenize ascii_db init [32, 9, 10]) = [] \<and>
   length (fst (tokenize ascii_db init [32, 9, 10])) \<le> 3"
  using tokenize_whitespace_empty [of ascii_db init "[32, 9, 10]"]
  by (simp add: ascii_db_def ascii_isspace_def)

text \<open>
  C8. A call of \<open>tokenize\<close> on an instance in any condition whatever (whatever its
  state, buffer and token list are, so in particular after any earlier calls) gives
  what the call on a fresh instance gives: the returned list and the instance it
  leaves. Hence a second call on the same string repeats the first one's output.
\<close>

theorem tokenize_no_carry_over:
  "tokenize u self s = tokenize u init s \<and>
   fst (tokenize u (snd (tokenize u self s')) s) = fst (tokenize u self s)"
  by (simp add: tokenize_def reset_init)

text \<open>
  C2. Let \<open>d\<close> be the instance after the prefix \<open>pre\<close> of an input, and \<open>ch\<close> the next
  character, one that ends the run \<open>d\<close> is in (not alphabetic and not an apostrophe in
  \<open>WORD\<close>, not a digit in \<open>NUMBER\<close>). Then the step on \<open>ch\<close> is: emit the buffered token
  and go to \<open>START\<close> (\<open>exit_run\<close>), then the \<open>START\<close> dispatch of \<open>ch\<close>, which is what the
  source's own \<open>START\<close> branch does on that instance; the scan goes on with the rest
  of the input, so no further character is consumed; and the step emits the buffered
  token and at most the symbol \<open>ch\<close> after it, so the re-dispatch emits no second
  buffered token.
\<close>

theorem exit_and_reprocess:
  assumes "d = scan u (reset self) pre"
    and "(state d = ''WORD'' \<and> \<not> (isalpha u ch \<or> ch = 39)) \<or>
         (state d = ''NUMBER'' \<and> \<not> isdigit u ch)"
  shows "step u d ch = start_dispatch u (exit_run d) ch \<and>
         start_dispatch u (exit_run d) ch = step u (exit_run d) ch \<and>
         scan u (reset self) (pre @ ch # rest) = scan u (start_dispatch u (exit_run d) ch) rest \<and>
         tokens (exit_run d) = tokens d @ [\<lparr>type = state d, val = current d\<rparr>] \<and>
         current d \<noteq> [] \<and>
         (tokens (step u d ch) = tokens (exit_run d) \<or>
          tokens (step u d ch) = tokens (exit_run d) @ [\<lparr>type = ''SYMBOL'', val = [ch]\<rparr>])"
proof -
  have inv: "tinv d" using assms(1) by (simp add: reset_init tinv_scan_init)
  have cur: "current d \<noteq> []"
    using inv assms(2) by (cases rule: tinv_cases) simp_all
  have st: "state (exit_run d) = ''START''" and ce: "current (exit_run d) = []"
    by (simp_all add: exit_run_def)
  have 1: "step u d ch = start_dispatch u (exit_run d) ch"
    using assms(2)
  proof
    assume a: "state d = ''WORD'' \<and> \<not> (isalpha u ch \<or> ch = 39)"
    then have "(emit ''WORD'' d)\<lparr>state := ''START''\<rparr> = exit_run d"
      using exit_run_emit [OF cur] by simp
    with a show ?thesis
      by (simp add: step_WORD start_dispatch_def ce Let_def)
  next
    assume a: "state d = ''NUMBER'' \<and> \<not> isdigit u ch"
    then have "(emit ''NUMBER'' d)\<lparr>state := ''START''\<rparr> = exit_run d"
      using exit_run_emit [OF cur] by simp
    with a show ?thesis
      by (simp add: step_NUMBER start_dispatch_def ce Let_def)
  qed
  have 2: "start_dispatch u (exit_run d) ch = step u (exit_run d) ch"
    by (simp add: step_START [OF st] start_dispatch_def ce)
  have 3: "scan u (reset self) (pre @ ch # rest) = scan u (start_dispatch u (exit_run d) ch) rest"
    using assms(1) 1 by (simp add: scan_append)
  have 4: "tokens (exit_run d) = tokens d @ [\<lparr>type = state d, val = current d\<rparr>]"
    by (simp add: exit_run_def)
  have 5: "tokens (step u d ch) = tokens (exit_run d) \<or>
          tokens (step u d ch) = tokens (exit_run d) @ [\<lparr>type = ''SYMBOL'', val = [ch]\<rparr>]"
    unfolding 1 by (simp add: start_dispatch_def)
  from 1 2 3 4 5 cur show ?thesis by blast
qed

theorem exit_and_reprocess_witness:
  "state (scan ascii_db (reset init) (str ''cat 123'')) = ''NUMBER'' \<and>
   \<not> isdigit ascii_db 97 \<and>
   step ascii_db (scan ascii_db (reset init) (str ''cat 123'')) 97 =
     start_dispatch ascii_db (exit_run (scan ascii_db (reset init) (str ''cat 123''))) 97 \<and>
   tokens (step ascii_db (scan ascii_db (reset init) (str ''cat 123'')) 97) =
     [\<lparr>type = ''WORD'', val = str ''cat''\<rparr>, \<lparr>type = ''NUMBER'', val = str ''123''\<rparr>]"
proof -
  have st: "state (scan ascii_db (reset init) (str ''cat 123'')) = ''NUMBER''"
    by code_simp
  have nd: "\<not> isdigit ascii_db 97"
    by (simp add: ascii_db_def ascii_isdigit_def)
  have tk: "tokens (step ascii_db (scan ascii_db (reset init) (str ''cat 123'')) 97) =
     [\<lparr>type = ''WORD'', val = str ''cat''\<rparr>, \<lparr>type = ''NUMBER'', val = str ''123''\<rparr>]"
    by code_simp
  from exit_and_reprocess [OF refl, of ascii_db init "str ''cat 123''" 97 "[]"] st nd tk
  show ?thesis by simp
qed

text \<open>
  C3. Every token returned by \<open>tokenize\<close> has a non-empty text when it is a \<open>WORD\<close>
  or a \<open>NUMBER\<close> and a text of exactly one character when it is a \<open>SYMBOL\<close>. The
  texts of words have gone through \<open>lower\<close>, so the statement assumes of the runtime
  what Python's \<open>str.lower\<close> guarantees: the lower-cased form of a non-empty string
  is not empty.
\<close>

theorem tokens_well_formed:
  assumes "\<And>w. w \<noteq> [] \<Longrightarrow> lower u w \<noteq> []"
  shows "\<forall>t \<in> set (fst (tokenize u self s)).
           (type t = ''WORD'' \<longrightarrow> val t \<noteq> []) \<and>
           (type t = ''NUMBER'' \<longrightarrow> val t \<noteq> []) \<and>
           (type t = ''SYMBOL'' \<longrightarrow> length (val t) = 1)"
proof
  fix t
  assume "t \<in> set (fst (tokenize u self s))"
  then obtain r where r: "r \<in> set (tokens (flush (scan u init s)))"
    and t: "t = (if type r = ''WORD'' then r\<lparr>val := lower u (val r)\<rparr> else r)"
    by (auto simp: tokenize_fst lowercase_words_def)
  from r have ok: "tok_ok r"
    using tok_ok_flush [OF tinv_scan_init, of u s] by (simp add: list_all_iff)
  show "(type t = ''WORD'' \<longrightarrow> val t \<noteq> []) \<and>
        (type t = ''NUMBER'' \<longrightarrow> val t \<noteq> []) \<and>
        (type t = ''SYMBOL'' \<longrightarrow> length (val t) = 1)"
  proof (cases "type r = ''WORD''")
    case True
    with ok have "val r \<noteq> []" by (simp add: tok_ok_def)
    then have "lower u (val r) \<noteq> []" by (rule assms)
    with True t show ?thesis by simp
  next
    case False
    with ok t show ?thesis by (auto simp: tok_ok_def)
  qed
qed

theorem tokens_well_formed_witness:
  "\<not> (\<exists>w. w \<noteq> [] \<and> lower ascii_db w = []) \<and>
   list_all (\<lambda>t. (type t = ''WORD'' \<and> val t \<noteq> []) \<or> (type t = ''NUMBER'' \<and> val t \<noteq> []) \<or>
                 (type t = ''SYMBOL'' \<and> length (val t) = 1))
     (fst (tokenize ascii_db init (str ''Ab12+'')))"
proof -
  have low: "w \<noteq> [] \<Longrightarrow> lower ascii_db w \<noteq> []" for w
    by (simp add: ascii_db_def)
  have ev: "fst (tokenize ascii_db init (str ''Ab12+'')) =
      [\<lparr>type = ''WORD'', val = str ''ab''\<rparr>, \<lparr>type = ''NUMBER'', val = str ''12''\<rparr>,
       \<lparr>type = ''SYMBOL'', val = str ''+''\<rparr>]"
    by code_simp
  have 1: "\<not> (\<exists>w. w \<noteq> [] \<and> lower ascii_db w = [])"
    using low by blast
  from tokens_well_formed [of ascii_db init "str ''Ab12+''", OF low] 1
  show ?thesis
    unfolding ev by (simp add: str_def)
qed

text \<open>
  C4. Let \<open>d\<close> be the instance when the loop over the input has ended. Its state is
  one of \<open>START\<close>, \<open>WORD\<close>, \<open>NUMBER\<close>. In \<open>WORD\<close> or \<open>NUMBER\<close> the buffer is not
  empty and the flush appends it as one final token of that kind, which is the last
  token of the result (lower-cased when it is a word). In \<open>START\<close> the buffer is empty,
  the flush changes nothing and the result has no token beyond those the loop emitted.
\<close>

theorem end_of_input_flush:
  "(let d = scan u (reset self) s in
     (state d = ''START'' \<or> state d = ''WORD'' \<or> state d = ''NUMBER'') \<and>
     (state d = ''WORD'' \<longrightarrow>
        current d \<noteq> [] \<and>
        tokens (flush d) = tokens d @ [\<lparr>type = ''WORD'', val = current d\<rparr>] \<and>
        fst (tokenize u self s) =
          lowercase_words u (tokens d) @ [\<lparr>type = ''WORD'', val = lower u (current d)\<rparr>]) \<and>
     (state d = ''NUMBER'' \<longrightarrow>
        current d \<noteq> [] \<and>
        tokens (flush d) = tokens d @ [\<lparr>type = ''NUMBER'', val = current d\<rparr>] \<and>
        fst (tokenize u self s) =
          lowercase_words u (tokens d) @ [\<lparr>type = ''NUMBER'', val = current d\<rparr>]) \<and>
     (state d = ''START'' \<longrightarrow>
        current d = [] \<and> flush d = d \<and>
        fst (tokenize u self s) = lowercase_words u (tokens d)))"
proof -
  have inv: "tinv (scan u init s)" by (rule tinv_scan_init)
  from inv flush_cases [OF inv] show ?thesis
    by (cases rule: tinv_cases)
      (simp_all add: Let_def reset_init tokenize_fst lowercase_words_def)
qed

theorem end_of_input_flush_witness:
  "state (scan ascii_db (reset init) (str ''ab 12'')) = ''NUMBER'' \<and>
   current (scan ascii_db (reset init) (str ''ab 12'')) = str ''12'' \<and>
   tokens (flush (scan ascii_db (reset init) (str ''ab 12''))) =
     tokens (scan ascii_db (reset init) (str ''ab 12'')) @ [\<lparr>type = ''NUMBER'', val = str ''12''\<rparr>] \<and>
   fst (tokenize ascii_db init (str ''ab 12'')) =
     lowercase_words ascii_db (tokens (scan ascii_db (reset init) (str ''ab 12''))) @
       [\<lparr>type = ''NUMBER'', val = str ''12''\<rparr>]"
proof -
  have st: "state (scan ascii_db (reset init) (str ''ab 12'')) = ''NUMBER''"
    by code_simp
  have cu: "current (scan ascii_db (reset init) (str ''ab 12'')) = str ''12''"
    by code_simp
  from end_of_input_flush [of ascii_db init "str ''ab 12''"] st cu
  show ?thesis by (simp add: Let_def)
qed

text \<open>
  C5. The returned sequence is the sequence the automaton has emitted (the field
  \<open>tokens\<close> of the instance when the call returns) after one pass that replaces the
  text of every \<open>WORD\<close> token by its lower-cased form: the two have the same length
  and the same kinds position by position, and a token that is not a \<open>WORD\<close> is
  returned unchanged.
\<close>

theorem tokenize_lowercases_words:
  "fst (tokenize u self s) = lowercase_words u (tokens (snd (tokenize u self s))) \<and>
   length (fst (tokenize u self s)) = length (tokens (snd (tokenize u self s))) \<and>
   (\<forall>i < length (tokens (snd (tokenize u self s))).
      type (fst (tokenize u self s) ! i) = type (tokens (snd (tokenize u self s)) ! i) \<and>
      (type (tokens (snd (tokenize u self s)) ! i) = ''WORD'' \<longrightarrow>
         val (fst (tokenize u self s) ! i) = lower u (val (tokens (snd (tokenize u self s)) ! i))) \<and>
      (type (tokens (snd (tokenize u self s)) ! i) \<noteq> ''WORD'' \<longrightarrow>
         fst (tokenize u self s) ! i = tokens (snd (tokenize u self s)) ! i))"
  by (simp add: tokenize_fst tokenize_snd lowercase_words_def)

theorem tokenize_lowercases_words_witness:
  "tokens (snd (tokenize ascii_db init (str ''Ab 1''))) =
     [\<lparr>type = ''WORD'', val = str ''Ab''\<rparr>, \<lparr>type = ''NUMBER'', val = str ''1''\<rparr>] \<and>
   fst (tokenize ascii_db init (str ''Ab 1'')) =
     [\<lparr>type = ''WORD'', val = lower ascii_db (str ''Ab'')\<rparr>, \<lparr>type = ''NUMBER'', val = str ''1''\<rparr>]"
proof -
  have raw: "tokens (snd (tokenize ascii_db init (str ''Ab 1''))) =
     [\<lparr>type = ''WORD'', val = str ''Ab''\<rparr>, \<lparr>type = ''NUMBER'', val = str ''1''\<rparr>]"
    by code_simp
  from tokenize_lowercases_words [of ascii_db init "str ''Ab 1''"] raw
  show ?thesis by (simp add: lowercase_words_def)
qed

text \<open>
  C7. With a character database that agrees with Python on ASCII,
  \<open>tokenize("x1 + x2 = 10")\<close> returns \<open>WORD("x")\<close>, \<open>NUMBER("1")\<close>, \<open>SYMBOL("+")\<close>,
  \<open>WORD("x")\<close>, \<open>NUMBER("2")\<close>, \<open>SYMBOL("=")\<close>, \<open>NUMBER("10")\<close>, in that order.
\<close>

theorem scenario_arithmetic:
  assumes "ascii_compatible u"
  shows "fst (tokenize u self (str ''x1 + x2 = 10'')) =
           [\<lparr>type = ''WORD'', val = str ''x''\<rparr>, \<lparr>type = ''NUMBER'', val = str ''1''\<rparr>,
            \<lparr>type = ''SYMBOL'', val = str ''+''\<rparr>, \<lparr>type = ''WORD'', val = str ''x''\<rparr>,
            \<lparr>type = ''NUMBER'', val = str ''2''\<rparr>, \<lparr>type = ''SYMBOL'', val = str ''=''\<rparr>,
            \<lparr>type = ''NUMBER'', val = str ''10''\<rparr>]"
proof -
  have a: "ascii_str (str ''x1 + x2 = 10'')"
    by (simp add: ascii_str_def str_def)
  have "fst (tokenize ascii_db init (str ''x1 + x2 = 10'')) =
           [\<lparr>type = ''WORD'', val = str ''x''\<rparr>, \<lparr>type = ''NUMBER'', val = str ''1''\<rparr>,
            \<lparr>type = ''SYMBOL'', val = str ''+''\<rparr>, \<lparr>type = ''WORD'', val = str ''x''\<rparr>,
            \<lparr>type = ''NUMBER'', val = str ''2''\<rparr>, \<lparr>type = ''SYMBOL'', val = str ''=''\<rparr>,
            \<lparr>type = ''NUMBER'', val = str ''10''\<rparr>]"
    by code_simp
  then show ?thesis
    by (simp only: tokenize_ascii [OF assms a])
qed

theorem scenario_arithmetic_witness:
  "ascii_compatible ascii_db \<and>
   fst (tokenize ascii_db init (str ''x1 + x2 = 10'')) =
           [\<lparr>type = ''WORD'', val = [120]\<rparr>, \<lparr>type = ''NUMBER'', val = [49]\<rparr>,
            \<lparr>type = ''SYMBOL'', val = [43]\<rparr>, \<lparr>type = ''WORD'', val = [120]\<rparr>,
            \<lparr>type = ''NUMBER'', val = [50]\<rparr>, \<lparr>type = ''SYMBOL'', val = [61]\<rparr>,
            \<lparr>type = ''NUMBER'', val = [49, 48]\<rparr>]"
  using scenario_arithmetic [OF ascii_compatible_ascii_db, of init] ascii_compatible_ascii_db
  by (simp add: str_def)

text \<open>
  C6. An apostrophe (code point 39) read in state \<open>WORD\<close> is appended to the buffer and
  the word goes on; read in state \<open>START\<close> it is none of whitespace, alphabetic or
  digit and is emitted as a \<open>SYMBOL\<close> of its own. So \<open>tokenize("don't stop")\<close> is
  \<open>WORD("don't")\<close>, \<open>WORD("stop")\<close>, while \<open>tokenize("'tis")\<close> starts with the symbol.
\<close>

theorem apostrophe_in_word_and_start:
  assumes "ascii_compatible u"
  shows "(state self = ''WORD'' \<longrightarrow> step u self 39 = self\<lparr>current := current self @ [39]\<rparr>) \<and>
         (state self = ''START'' \<longrightarrow>
            step u self 39 = self\<lparr>tokens := tokens self @ [\<lparr>type = ''SYMBOL'', val = [39]\<rparr>]\<rparr>) \<and>
         fst (tokenize u self (str ''don't stop'')) =
           [\<lparr>type = ''WORD'', val = str ''don't''\<rparr>, \<lparr>type = ''WORD'', val = str ''stop''\<rparr>] \<and>
         fst (tokenize u self (39 # str ''tis'')) =
           [\<lparr>type = ''SYMBOL'', val = [39]\<rparr>, \<lparr>type = ''WORD'', val = str ''tis''\<rparr>]"
proof -
  have cls: "\<not> isspace u 39" "\<not> isalpha u 39" "\<not> isdigit u 39"
    using assms
    by (simp_all add: ascii_compatible_def ascii_isspace_def ascii_isalpha_def ascii_isdigit_def)
  have w: "step u self 39 = self\<lparr>current := current self @ [39]\<rparr>" if "state self = ''WORD''"
    using that by (simp add: step_WORD)
  have s: "step u self 39 = self\<lparr>tokens := tokens self @ [\<lparr>type = ''SYMBOL'', val = [39]\<rparr>]\<rparr>"
    if "state self = ''START''"
    using that cls by (simp add: step_START)
  have a1: "ascii_str (str ''don't stop'')" and a2: "ascii_str (39 # str ''tis'')"
    by (simp_all add: ascii_str_def str_def)
  have e1: "fst (tokenize ascii_db init (str ''don't stop'')) =
           [\<lparr>type = ''WORD'', val = str ''don't''\<rparr>, \<lparr>type = ''WORD'', val = str ''stop''\<rparr>]"
    by code_simp
  have e2: "fst (tokenize ascii_db init (39 # str ''tis'')) =
           [\<lparr>type = ''SYMBOL'', val = [39]\<rparr>, \<lparr>type = ''WORD'', val = str ''tis''\<rparr>]"
    by code_simp
  from w s e1 e2 show ?thesis
    by (simp only: tokenize_ascii [OF assms a1] tokenize_ascii [OF assms a2]) blast
qed

theorem apostrophe_in_word_and_start_witness:
  "ascii_compatible ascii_db \<and>
   state (scan ascii_db init (str ''don'')) = ''WORD'' \<and>
   step ascii_db (scan ascii_db init (str ''don'')) 39 =
     (scan ascii_db init (str ''don''))\<lparr>current := str ''don'' @ [39]\<rparr> \<and>
   state init = ''START'' \<and>
   step ascii_db init 39 = init\<lparr>tokens := [\<lparr>type = ''SYMBOL'', val = [39]\<rparr>]\<rparr>"
proof -
  have st: "state (scan ascii_db init (str ''don'')) = ''WORD''"
    and cu: "current (scan ascii_db init (str ''don'')) = str ''don''"
    and si: "state init = ''START''" and ti: "tokens init = []"
    by code_simp+
  from apostrophe_in_word_and_start [OF ascii_compatible_ascii_db,
      of "scan ascii_db init (str ''don'')"]
    apostrophe_in_word_and_start [OF ascii_compatible_ascii_db, of init]
    st cu si ti ascii_compatible_ascii_db
  show ?thesis by (simp add: str_def)
qed

text \<open>
  C9. Tokenization is not round-trip-preserving. On \<open>"A b"\<close> the tokens are
  \<open>WORD("a")\<close>, \<open>WORD("b")\<close>; the string rebuilt from their texts is \<open>"ab"\<close>, which has lost
  the blank and the capital, and tokenizing it gives the single token \<open>WORD("ab")\<close>.
  Hence there is an input whose rebuilt string does not tokenize to the same sequence.
\<close>

theorem tokenize_not_round_trip:
  assumes "ascii_compatible u"
  shows "fst (tokenize u self (str ''A b'')) =
           [\<lparr>type = ''WORD'', val = str ''a''\<rparr>, \<lparr>type = ''WORD'', val = str ''b''\<rparr>] \<and>
         concat (map val (fst (tokenize u self (str ''A b'')))) = str ''ab'' \<and>
         fst (tokenize u self (str ''ab'')) = [\<lparr>type = ''WORD'', val = str ''ab''\<rparr>] \<and>
         (\<exists>s. fst (tokenize u self (concat (map val (fst (tokenize u self s))))) \<noteq>
              fst (tokenize u self s))"
proof -
  have a1: "ascii_str (str ''A b'')" and a2: "ascii_str (str ''ab'')"
    by (simp_all add: ascii_str_def str_def)
  have e1: "fst (tokenize ascii_db init (str ''A b'')) =
           [\<lparr>type = ''WORD'', val = str ''a''\<rparr>, \<lparr>type = ''WORD'', val = str ''b''\<rparr>]"
    by code_simp
  have e2: "fst (tokenize ascii_db init (str ''ab'')) = [\<lparr>type = ''WORD'', val = str ''ab''\<rparr>]"
    by code_simp
  have 1: "fst (tokenize u self (str ''A b'')) =
           [\<lparr>type = ''WORD'', val = str ''a''\<rparr>, \<lparr>type = ''WORD'', val = str ''b''\<rparr>]"
    using e1 by (simp only: tokenize_ascii [OF assms a1])
  have 2: "concat (map val (fst (tokenize u self (str ''A b'')))) = str ''ab''"
    unfolding 1 by (simp add: str_def)
  have 3: "fst (tokenize u self (str ''ab'')) = [\<lparr>type = ''WORD'', val = str ''ab''\<rparr>]"
    using e2 by (simp only: tokenize_ascii [OF assms a2])
  have "fst (tokenize u self (concat (map val (fst (tokenize u self (str ''A b''))))))
          = [\<lparr>type = ''WORD'', val = str ''ab''\<rparr>]"
    by (simp only: 2 3)
  then have "fst (tokenize u self (concat (map val (fst (tokenize u self (str ''A b'')))))) \<noteq>
        fst (tokenize u self (str ''A b''))"
    by (simp add: 1)
  then have 4: "\<exists>s. fst (tokenize u self (concat (map val (fst (tokenize u self s))))) \<noteq>
              fst (tokenize u self s)" ..
  from 1 2 3 4 show ?thesis by blast
qed

theorem tokenize_not_round_trip_witness:
  "ascii_compatible ascii_db \<and>
   fst (tokenize ascii_db init (concat (map val (fst (tokenize ascii_db init (str ''A b'')))))) \<noteq>
   fst (tokenize ascii_db init (str ''A b''))"
proof -
  from tokenize_not_round_trip [OF ascii_compatible_ascii_db, of init]
  have 1: "fst (tokenize ascii_db init (str ''A b'')) =
           [\<lparr>type = ''WORD'', val = str ''a''\<rparr>, \<lparr>type = ''WORD'', val = str ''b''\<rparr>]"
    and 2: "concat (map val (fst (tokenize ascii_db init (str ''A b'')))) = str ''ab''"
    and 3: "fst (tokenize ascii_db init (str ''ab'')) = [\<lparr>type = ''WORD'', val = str ''ab''\<rparr>]"
    by blast+
  have "fst (tokenize ascii_db init (concat (map val (fst (tokenize ascii_db init (str ''A b''))))))
          = [\<lparr>type = ''WORD'', val = str ''ab''\<rparr>]"
    by (simp only: 2 3)
  then show ?thesis
    by (simp add: 1 ascii_compatible_ascii_db)
qed

text \<open>
  C10. The texts of the tokens the automaton has emitted, concatenated in order, are
  exactly the characters of the input that are not whitespace, in their order: each
  of them is in one token, none is duplicated or dropped. The returned sequence
  carries the same texts, except that the text of each \<open>WORD\<close> token is lower-cased.
  The statement assumes of the runtime what holds of Python's classification: a
  whitespace character is neither alphabetic nor a digit nor the apostrophe.
\<close>

theorem tokens_partition_input:
  assumes "\<And>c. isspace u c \<Longrightarrow> \<not> isalpha u c \<and> \<not> isdigit u c \<and> c \<noteq> 39"
  shows "concat (map val (tokens (snd (tokenize u self s)))) = filter (\<lambda>c. \<not> isspace u c) s \<and>
         concat (map val (fst (tokenize u self s))) =
           concat (map (\<lambda>t. if type t = ''WORD'' then lower u (val t) else val t)
                       (tokens (snd (tokenize u self s))))"
proof -
  have "content init = []" by (simp add: content_def init_def)
  then have 1: "concat (map val (tokens (snd (tokenize u self s)))) =
      filter (\<lambda>c. \<not> isspace u c) s"
    using content_scan [OF assms tinv_init, of s]
    by (simp add: tokenize_snd content_flush [OF tinv_scan_init])
  have 2: "concat (map val (lowercase_words u ts)) =
      concat (map (\<lambda>t. if type t = ''WORD'' then lower u (val t) else val t) ts)" for ts
    by (induction ts) (simp_all add: lowercase_words_def)
  from 1 2 show ?thesis
    by (simp add: tokenize_fst tokenize_snd)
qed

theorem tokens_partition_input_witness:
  "\<not> (\<exists>c. isspace ascii_db c \<and> (isalpha ascii_db c \<or> isdigit ascii_db c \<or> c = 39)) \<and>
   concat (map val (tokens (snd (tokenize ascii_db init (str '' Ab  1+c'd ''))))) = str ''Ab1+c'd'' \<and>
   concat (map val (fst (tokenize ascii_db init (str '' Ab  1+c'd '')))) = str ''ab1+c'd''"
proof -
  have sep: "isspace ascii_db c \<Longrightarrow> \<not> isalpha ascii_db c \<and> \<not> isdigit ascii_db c \<and> c \<noteq> 39" for c
    by (auto simp: ascii_db_def ascii_isspace_def ascii_isalpha_def ascii_isdigit_def)
  have f: "filter (\<lambda>c. \<not> isspace ascii_db c) (str '' Ab  1+c'd '') = str ''Ab1+c'd''"
    by (simp add: str_def ascii_db_def ascii_isspace_def)
  have raw: "tokens (snd (tokenize ascii_db init (str '' Ab  1+c'd ''))) =
      [\<lparr>type = ''WORD'', val = str ''Ab''\<rparr>, \<lparr>type = ''NUMBER'', val = str ''1''\<rparr>,
       \<lparr>type = ''SYMBOL'', val = str ''+''\<rparr>, \<lparr>type = ''WORD'', val = str ''c'd''\<rparr>]"
    by code_simp
  have 1: "\<not> (\<exists>c. isspace ascii_db c \<and> (isalpha ascii_db c \<or> isdigit ascii_db c \<or> c = 39))"
    using sep by blast
  from tokens_partition_input [of ascii_db init "str '' Ab  1+c'd ''", OF sep]
  have 2: "concat (map val (tokens (snd (tokenize ascii_db init (str '' Ab  1+c'd ''))))) =
       str ''Ab1+c'd''"
    and 3: "concat (map val (fst (tokenize ascii_db init (str '' Ab  1+c'd '')))) =
      concat (map (\<lambda>t. if type t = ''WORD'' then lower ascii_db (val t) else val t)
                       (tokens (snd (tokenize ascii_db init (str '' Ab  1+c'd '')))))"
    by (simp_all only: f)
  have 4: "concat (map val (fst (tokenize ascii_db init (str '' Ab  1+c'd '')))) = str ''ab1+c'd''"
    unfolding 3 raw by (simp add: str_def ascii_db_def ascii_lower_def)
  from 1 2 4 show ?thesis by blast
qed

end
